theory Spec2Isabelle
  imports Complex_Main "HOL-Library.AList" "HOL-Library.Sublist"
begin

section \<open>Data model\<close>

text \<open>
  Python exceptions become values. The first six are the built-in exceptions that the
  functions of \<^verbatim>\<open>huffman.py\<close> can raise. \<open>EmptyInputError\<close> is an error kind that
  only the specification names; no function of the source raises it.
\<close>

datatype error =
    IndexError | KeyError | ValueError | TypeError | AttributeError | ZeroDivisionError
  | EmptyInputError

text \<open>
  Modelled from the spec: the classes \<^verbatim>\<open>HuffmanNode\<close> and \<^verbatim>\<open>ReadNode\<close> live in
  \<^verbatim>\<open>nodes.py\<close>, which is not among the sources. \<^verbatim>\<open>huffman.py\<close> builds nodes with
  \<^verbatim>\<open>HuffmanNode(symbol, left, right)\<close> (every argument defaulting to \<^verbatim>\<open>None\<close>), reads
  and writes the attributes \<^verbatim>\<open>symbol\<close>, \<^verbatim>\<open>left\<close>, \<^verbatim>\<open>right\<close> and \<^verbatim>\<open>number\<close>, and calls
  \<^verbatim>\<open>is_leaf()\<close>. A node is therefore a value with four optional fields; a fresh node
  has no number. A node object is truthy, so \<^verbatim>\<open>not node\<close> holds of \<^verbatim>\<open>None\<close> only.
  A Leaf of the specification is a node with a symbol and no child, an Internal node
  has two children. A tree is a value: no node is shared between two parents.
\<close>

datatype HuffmanNode =
  HuffmanNode (symbol: "int option") (left: "HuffmanNode option")
    (right: "HuffmanNode option") (number: "int option")

text \<open>
  Modelled from the spec: \<^verbatim>\<open>is_leaf\<close> of \<^verbatim>\<open>nodes.py\<close>; a leaf has no children.
\<close>

definition is_leaf :: "HuffmanNode \<Rightarrow> bool" where
  "is_leaf node = (left node = None \<and> right node = None)"

abbreviation Leaf :: "int \<Rightarrow> HuffmanNode" where
  "Leaf s \<equiv> HuffmanNode (Some s) None None None"

abbreviation Internal :: "HuffmanNode \<Rightarrow> HuffmanNode \<Rightarrow> HuffmanNode" where
  "Internal l r \<equiv> HuffmanNode None (Some l) (Some r) None"

text \<open>
  Modelled from the spec: \<^verbatim>\<open>ReadNode(l_type, l_data, r_type, r_data)\<close> of \<^verbatim>\<open>nodes.py\<close>,
  the four-field record of one serialized internal node.
\<close>

record ReadNode =
  l_type :: int
  l_data :: int
  r_type :: int
  r_data :: int

text \<open>
  A Python \<^verbatim>\<open>dict\<close> is an association list in insertion order with distinct keys:
  \<^verbatim>\<open>d[k] = v\<close> is \<^const>\<open>AList.update\<close> (a present key keeps its place, a new key goes
  to the end), \<^verbatim>\<open>del d[k]\<close> is \<^const>\<open>AList.delete\<close>, \<^verbatim>\<open>d[k]\<close> is \<^const>\<open>map_of\<close>
  with \<^verbatim>\<open>KeyError\<close> on \<open>None\<close>.
\<close>

type_synonym ('k, 'v) dict = "('k \<times> 'v) list"

section \<open>Tree construction\<close>

text \<open>The \<^verbatim>\<open>for key in keylist\<close> loop of \<^verbatim>\<open>find_biggest_key\<close>.\<close>

fun scan_keys :: "(int, int) dict \<Rightarrow> int list \<Rightarrow> int \<Rightarrow> error + int" where
  "scan_keys freq_dict [] current_key = Inr current_key"
| "scan_keys freq_dict (key # keys) current_key =
     (case map_of freq_dict key of
        None \<Rightarrow> Inl KeyError
      | Some fk \<Rightarrow>
          (case map_of freq_dict current_key of
             None \<Rightarrow> Inl KeyError
           | Some fc \<Rightarrow> scan_keys freq_dict keys (if fk > fc then key else current_key)))"

text \<open>\<^verbatim>\<open>find_biggest_key\<close>: \<open>None\<close> on the empty list, as the bare \<^verbatim>\<open>return\<close> gives.\<close>

definition find_biggest_key :: "(int, int) dict \<Rightarrow> int list \<Rightarrow> error + int option" where
  "find_biggest_key freq_dict keylist =
     (if length keylist > 0 then
        (case scan_keys freq_dict keylist (hd keylist) of
           Inl e \<Rightarrow> Inl e
         | Inr current_key \<Rightarrow> Inr (Some current_key))
      else Inr None)"

text \<open>
  The first \<^verbatim>\<open>while\<close> loop of \<^verbatim>\<open>huffman_tree\<close>, on the state
  \<open>(temp, frequency, key_list, biggest_key)\<close>. A \<open>biggest_key\<close> of \<^verbatim>\<open>None\<close> is not a
  key of \<open>frequency\<close>, whose keys are integers, so \<^verbatim>\<open>del\<close> raises \<^verbatim>\<open>KeyError\<close>;
  \<^verbatim>\<open>list.remove\<close> raises \<^verbatim>\<open>ValueError\<close> on an absent element.
\<close>

function order_loop ::
  "(int, int) dict \<Rightarrow> int list \<Rightarrow> (int, int) dict \<Rightarrow> int list \<Rightarrow> int option \<Rightarrow> error + int list"
where
  "order_loop freq_dict temp frequency key_list biggest_key =
     (if length key_list > 0 then
        (case biggest_key of
           None \<Rightarrow> Inl KeyError
         | Some b \<Rightarrow>
             if b \<notin> set (map fst frequency) then Inl KeyError
             else if b \<notin> set key_list then Inl ValueError
             else
               (case find_biggest_key freq_dict (remove1 b key_list) of
                  Inl e \<Rightarrow> Inl e
                | Inr biggest_key' \<Rightarrow>
                    order_loop freq_dict (temp @ [b]) (AList.delete b frequency)
                      (remove1 b key_list) biggest_key'))
      else Inr temp)"
  by pat_completeness auto
termination
  by (relation "measure (\<lambda>(freq_dict, temp, frequency, key_list, biggest_key). length key_list)")
     (auto simp: length_remove1 intro: length_pos_if_in_set)

text \<open>The second loop: \<^verbatim>\<open>nodes_list.append(HuffmanNode(temp.pop()))\<close> until \<open>temp\<close> is empty.\<close>

function fill_nodes :: "int list \<Rightarrow> HuffmanNode list \<Rightarrow> HuffmanNode list" where
  "fill_nodes temp nodes_list =
     (if length temp > 0 then
        fill_nodes (butlast temp) (nodes_list @ [HuffmanNode (Some (last temp)) None None None])
      else nodes_list)"
  by pat_completeness auto
termination
  by (relation "measure (\<lambda>(temp, nodes_list). length temp)") auto

text \<open>
  The \<^verbatim>\<open>while True\<close> loop. \<^verbatim>\<open>list.pop()\<close> removes the last element and raises
  \<^verbatim>\<open>IndexError\<close> on the empty list; \<^verbatim>\<open>insert(0, parent_node)\<close> puts the new node in
  front.
\<close>

function merge_loop :: "HuffmanNode list \<Rightarrow> error + HuffmanNode" where
  "merge_loop nodes_list =
     (if nodes_list = [] then Inl IndexError
      else
        let first_node = last nodes_list; nodes_list1 = butlast nodes_list in
        if nodes_list1 = [] then Inr first_node
        else
          let second_node = last nodes_list1; nodes_list2 = butlast nodes_list1;
              parent_node = HuffmanNode None (Some first_node) (Some second_node) None
          in merge_loop (parent_node # nodes_list2))"
  by pat_completeness auto
termination
proof (relation "measure length")
  show "wf (measure (length :: HuffmanNode list \<Rightarrow> nat))" by simp
next
  fix nodes_list :: "HuffmanNode list" and first_node nodes_list1 second_node nodes_list2 parent_node
  assume "nodes_list \<noteq> []" and n1: "nodes_list1 = butlast nodes_list"
    and "nodes_list1 \<noteq> []" and n2: "nodes_list2 = butlast nodes_list1"
  then have "2 \<le> length nodes_list"
    by (cases nodes_list rule: rev_cases) (auto simp: Suc_le_eq)
  then show "(parent_node # nodes_list2, nodes_list) \<in> measure length"
    by (simp add: n1 n2)
qed

definition huffman_tree :: "(int, int) dict \<Rightarrow> error + HuffmanNode" where
  "huffman_tree freq_dict =
     (let frequency = freq_dict; key_list = map fst frequency in
      case find_biggest_key freq_dict key_list of
        Inl e \<Rightarrow> Inl e
      | Inr biggest_key \<Rightarrow>
          (case order_loop freq_dict [] frequency key_list biggest_key of
             Inl e \<Rightarrow> Inl e
           | Inr temp \<Rightarrow> merge_loop (rev (fill_nodes temp []))))"

section \<open>Code table\<close>

text \<open>\<^verbatim>\<open>d.update(temp)\<close>: the entries of \<open>temp\<close> are stored into \<open>d\<close> one by one, in order.\<close>

definition dict_update :: "('k, 'v) dict \<Rightarrow> ('k, 'v) dict \<Rightarrow> ('k, 'v) dict" where
  "dict_update d temp = fold (\<lambda>(k, v) acc. AList.update k v acc) temp d"

text \<open>
  \<^verbatim>\<open>get_codes\<close>. Codes are strings of the characters \<open>0\<close> and \<open>1\<close>. A node with one
  child only is not a leaf, and asking its missing child for \<^verbatim>\<open>is_leaf()\<close> raises
  \<^verbatim>\<open>AttributeError\<close>. The keys of the table are the \<open>symbol\<close> fields, so they have
  type \<open>int option\<close>.
\<close>

fun get_codes :: "HuffmanNode \<Rightarrow> error + (int option, string) dict" where
  "get_codes (HuffmanNode sy l r num) =
     (if l = None \<and> r = None then Inr []
      else
        (case l of
           None \<Rightarrow> Inl AttributeError
         | Some lt \<Rightarrow>
             (case (if is_leaf lt then Inr (AList.update (symbol lt) ''0'' [])
                    else (case get_codes lt of
                            Inl e \<Rightarrow> Inl e
                          | Inr temp1 \<Rightarrow>
                              Inr (dict_update [] (map (\<lambda>(k, v). (k, CHR ''0'' # v)) temp1))))
              of
                Inl e \<Rightarrow> Inl e
              | Inr d \<Rightarrow>
                  (case r of
                     None \<Rightarrow> Inl AttributeError
                   | Some rt \<Rightarrow>
                       if is_leaf rt then Inr (AList.update (symbol rt) ''1'' d)
                       else (case get_codes rt of
                               Inl e \<Rightarrow> Inl e
                             | Inr temp2 \<Rightarrow>
                                 Inr (dict_update d
                                        (map (\<lambda>(k, v). (k, CHR ''1'' # v)) temp2)))))))"

section \<open>Numbering\<close>

text \<open>
  \<^verbatim>\<open>traverse_node\<close> inside \<^verbatim>\<open>number_nodes\<close>. The nodes are mutated in place; the model
  returns the updated subtree. The last statement of every call on a node writes
  \<^verbatim>\<open>tree.number\<close>, the number of the root that \<^verbatim>\<open>number_nodes\<close> was called on: the
  fourth argument and the second result carry that cell. \<^verbatim>\<open>max\<close> is a parameter, so
  \<^verbatim>\<open>max += 1\<close> changes the local copy only.
\<close>

function traverse_node ::
  "HuffmanNode option \<Rightarrow> int \<Rightarrow> int \<Rightarrow> int option \<Rightarrow> HuffmanNode option \<times> int option"
where
  "traverse_node None x max_arg tree_number = (None, tree_number)"
| "traverse_node (Some (HuffmanNode sy l r num)) x max_arg tree_number =
     (case traverse_node l x max_arg tree_number of
        (l', tree_number1) \<Rightarrow>
          (case traverse_node r (x + 1) max_arg tree_number1 of
             (r', tree_number2) \<Rightarrow>
               (Some (HuffmanNode sy l' r' (Some x)), Some ((max_arg + 1) + 1))))"
  by pat_completeness auto
termination
  by (relation "measure (\<lambda>(node, x, max_arg, tree_number).
        case node of None \<Rightarrow> 0 | Some t \<Rightarrow> Suc (size t))")
     (auto split: option.splits)

text \<open>
  \<^verbatim>\<open>number_nodes\<close>: the root is the object \<^verbatim>\<open>tree\<close> itself, so after the traversal its
  number is the last value written to \<^verbatim>\<open>tree.number\<close>.
\<close>

definition number_nodes :: "HuffmanNode \<Rightarrow> HuffmanNode" where
  "number_nodes tree =
     (case traverse_node (Some tree) 0 0 (number tree) of
        (Some t, tree_number) \<Rightarrow> HuffmanNode (symbol t) (left t) (right t) tree_number
      | (None, tree_number) \<Rightarrow> tree)"

section \<open>Average code length\<close>

text \<open>The \<^verbatim>\<open>for key in freq_dict.keys()\<close> loop of \<^verbatim>\<open>avg_length\<close>, on \<open>(l, divisor)\<close>.\<close>

fun avg_loop ::
  "HuffmanNode \<Rightarrow> (int, int) dict \<Rightarrow> int list \<Rightarrow> int \<Rightarrow> int \<Rightarrow> error + int \<times> int" where
  "avg_loop tree freq_dict [] l divisor = Inr (l, divisor)"
| "avg_loop tree freq_dict (key # keys) l divisor =
     (case get_codes tree of
        Inl e \<Rightarrow> Inl e
      | Inr codes \<Rightarrow>
          (case map_of codes (Some key) of
             None \<Rightarrow> Inl KeyError
           | Some code \<Rightarrow>
               (case map_of freq_dict key of
                  None \<Rightarrow> Inl KeyError
                | Some f \<Rightarrow>
                    avg_loop tree freq_dict keys (l + int (length code) * f) (divisor + f))))"

text \<open>
  \<^verbatim>\<open>avg_length\<close>. Python's \<^verbatim>\<open>l / divisor\<close> is a float; the model keeps the exact
  quotient as a rational number.
\<close>

definition avg_length :: "HuffmanNode \<Rightarrow> (int, int) dict \<Rightarrow> error + rat" where
  "avg_length tree freq_dict =
     (case avg_loop tree freq_dict (map fst freq_dict) 0 0 of
        Inl e \<Rightarrow> Inl e
      | Inr (l, divisor) \<Rightarrow>
          if divisor = 0 then Inl ZeroDivisionError else Inr (of_int l / of_int divisor))"

section \<open>Bytes and bits\<close>

text \<open>\<^verbatim>\<open>a << n\<close> and \<^verbatim>\<open>a >> n\<close> raise \<^verbatim>\<open>ValueError\<close> on a negative shift count.\<close>

definition py_lshift :: "int \<Rightarrow> int \<Rightarrow> error + int" where
  "py_lshift a n = (if n < 0 then Inl ValueError else Inr (push_bit (nat n) a))"

definition py_rshift :: "int \<Rightarrow> int \<Rightarrow> error + int" where
  "py_rshift a n = (if n < 0 then Inl ValueError else Inr (drop_bit (nat n) a))"

definition get_bit :: "int \<Rightarrow> int \<Rightarrow> error + int" where
  "get_bit byte bit_num =
     (case py_lshift 1 bit_num of
        Inl e \<Rightarrow> Inl e
      | Inr m \<Rightarrow> py_rshift (and byte m) bit_num)"

text \<open>
  \<^verbatim>\<open>byte_to_bits\<close>: \<^verbatim>\<open>str\<close> of the bits 7 down to 0. \<^verbatim>\<open>get_bit\<close> returns 0 or 1, whose
  \<^verbatim>\<open>str\<close> is one character.
\<close>

fun bits_of :: "int \<Rightarrow> int list \<Rightarrow> error + string" where
  "bits_of byte [] = Inr []"
| "bits_of byte (bit_num # rest) =
     (case get_bit byte bit_num of
        Inl e \<Rightarrow> Inl e
      | Inr b \<Rightarrow>
          (case bits_of byte rest of
             Inl e \<Rightarrow> Inl e
           | Inr cs \<Rightarrow> Inr ((if b = 0 then CHR ''0'' else CHR ''1'') # cs)))"

definition byte_to_bits :: "int \<Rightarrow> error + string" where
  "byte_to_bits byte = bits_of byte [7, 6, 5, 4, 3, 2, 1, 0]"

text \<open>\<^verbatim>\<open>int(c)\<close> of a one-character string: a decimal digit, or \<^verbatim>\<open>ValueError\<close>.\<close>

definition int_of_char :: "char \<Rightarrow> error + int" where
  "int_of_char c =
     (if c \<in> set ''0123456789'' then Inr (int (of_char c) - 48) else Inl ValueError)"

text \<open>
  The list comprehension of \<^verbatim>\<open>bits_to_byte\<close>, position by position: from position 8 on
  the shift count \<open>7 - pos\<close> is negative and the shift raises.
\<close>

fun shifted_bits :: "string \<Rightarrow> int \<Rightarrow> error + int list" where
  "shifted_bits [] pos = Inr []"
| "shifted_bits (c # cs) pos =
     (case int_of_char c of
        Inl e \<Rightarrow> Inl e
      | Inr b \<Rightarrow>
          (case py_lshift b (7 - pos) of
             Inl e \<Rightarrow> Inl e
           | Inr v \<Rightarrow>
               (case shifted_bits cs (pos + 1) of
                  Inl e \<Rightarrow> Inl e
                | Inr vs \<Rightarrow> Inr (v # vs))))"

definition bits_to_byte :: "string \<Rightarrow> error + int" where
  "bits_to_byte bits =
     (case shifted_bits bits 0 of Inl e \<Rightarrow> Inl e | Inr vs \<Rightarrow> Inr (sum_list vs))"

text \<open>
  \<^verbatim>\<open>bytes(lst)\<close>: every element must be an integer in \<open>[0, 256)\<close>; \<^verbatim>\<open>None\<close> raises
  \<^verbatim>\<open>TypeError\<close>, an integer out of range \<^verbatim>\<open>ValueError\<close>.
\<close>

fun py_bytes :: "int option list \<Rightarrow> error + int list" where
  "py_bytes [] = Inr []"
| "py_bytes (None # xs) = Inl TypeError"
| "py_bytes (Some v # xs) =
     (if 0 \<le> v \<and> v < 256 then
        (case py_bytes xs of Inl e \<Rightarrow> Inl e | Inr bs \<Rightarrow> Inr (v # bs))
      else Inl ValueError)"

text \<open>
  \<^verbatim>\<open>xs[i]\<close> on a list: positions \<open>0 .. len - 1\<close>, the positions \<open>-len .. -1\<close> read
  from the back, anything else raises \<^verbatim>\<open>IndexError\<close>.
\<close>

definition py_index :: "'a list \<Rightarrow> int \<Rightarrow> error + 'a" where
  "py_index xs i =
     (if 0 \<le> i \<and> i < int (length xs) then Inr (xs ! nat i)
      else if i < 0 \<and> - int (length xs) \<le> i then Inr (xs ! nat (int (length xs) + i))
      else Inl IndexError)"

section \<open>Compression\<close>

text \<open>\<^verbatim>\<open>make_freq_dict\<close>: the loop over the bytes of \<open>text\<close>, on the dictionary \<open>dic\<close>.\<close>

fun make_freq_loop :: "int list \<Rightarrow> (int, int) dict \<Rightarrow> (int, int) dict" where
  "make_freq_loop [] dic = dic"
| "make_freq_loop (char # text) dic =
     make_freq_loop text
       (case map_of dic char of
          None \<Rightarrow> AList.update char 1 dic
        | Some c \<Rightarrow> AList.update char (c + 1) dic)"

definition make_freq_dict :: "int list \<Rightarrow> (int, int) dict" where
  "make_freq_dict text = make_freq_loop text []"

text \<open>The first loop of \<^verbatim>\<open>generate_compressed\<close>: \<^verbatim>\<open>byte += codes[i]\<close>.\<close>

fun concat_codes :: "int list \<Rightarrow> (int option, string) dict \<Rightarrow> string \<Rightarrow> error + string" where
  "concat_codes [] codes byte = Inr byte"
| "concat_codes (i # text) codes byte =
     (case map_of codes (Some i) of
        None \<Rightarrow> Inl KeyError
      | Some code \<Rightarrow> concat_codes text codes (byte @ code))"

text \<open>
  The loop \<^verbatim>\<open>for i in range(1, length)\<close> of \<^verbatim>\<open>generate_compressed\<close>, on \<open>(lst, byte)\<close>:
  the slice \<^verbatim>\<open>byte[:8 * i]\<close> is packed and \<^verbatim>\<open>byte[8 * i:]\<close> is kept.
\<close>

fun pack_loop :: "nat list \<Rightarrow> int list \<Rightarrow> string \<Rightarrow> error + int list" where
  "pack_loop [] lst byte = Inr lst"
| "pack_loop (i # rest) lst byte =
     (case bits_to_byte (take (8 * i) byte) of
        Inl e \<Rightarrow> Inl e
      | Inr b \<Rightarrow> pack_loop rest (lst @ [b]) (drop (8 * i) byte))"

definition generate_compressed :: "int list \<Rightarrow> (int option, string) dict \<Rightarrow> error + int list" where
  "generate_compressed text codes =
     (case concat_codes text codes [] of
        Inl e \<Rightarrow> Inl e
      | Inr byte \<Rightarrow>
          if length byte < 8 then
            (case bits_to_byte byte of Inl e \<Rightarrow> Inl e | Inr b \<Rightarrow> Inr [b])
          else
            (let len = (length byte mod 8) + 2 in pack_loop [1..<len] [] byte))"

section \<open>Tree serialization\<close>

text \<open>
  \<^verbatim>\<open>traverse_tree\<close> inside \<^verbatim>\<open>tree_to_bytes\<close>, appending to \<open>lst\<close>. The elements are the
  values appended: \<open>Some\<close> of an integer, or \<open>None\<close> for a missing symbol or number.
\<close>

function traverse_tree :: "HuffmanNode option \<Rightarrow> int option list \<Rightarrow> int option list" where
  "traverse_tree None lst = lst"
| "traverse_tree (Some node) lst =
     (let lst1 =
            (if left node \<noteq> None \<and> is_leaf (the (left node))
             then lst @ [Some 0, symbol (the (left node))]
             else traverse_tree (left node) lst);
          lst2 =
            (if right node \<noteq> None \<and> is_leaf (the (right node))
             then lst1 @ [Some 0, symbol (the (right node))]
             else traverse_tree (right node) lst1)
      in if \<not> is_leaf node then lst2 @ [Some 1, number node] else lst2)"
  by pat_completeness auto
termination
  by (relation "measure (\<lambda>(node, lst).
        case node of None \<Rightarrow> 0 | Some t \<Rightarrow> Suc (size t))")
     (auto split: option.splits, (case_tac node; simp)+)

text \<open>\<^verbatim>\<open>tree_to_bytes\<close>: \<^verbatim>\<open>lst[:-2]\<close> drops the last two elements.\<close>

definition tree_to_bytes :: "HuffmanNode \<Rightarrow> error + int list" where
  "tree_to_bytes tree = py_bytes (butlast (butlast (traverse_tree (Some tree) [])))"

text \<open>\<^verbatim>\<open>num_nodes_to_bytes\<close>: \<^verbatim>\<open>tree.number + 1\<close> raises \<^verbatim>\<open>TypeError\<close> when the number is \<^verbatim>\<open>None\<close>.\<close>

definition num_nodes_to_bytes :: "HuffmanNode \<Rightarrow> error + int list" where
  "num_nodes_to_bytes tree =
     (case number tree of
        None \<Rightarrow> Inl TypeError
      | Some n \<Rightarrow> py_bytes [Some (n + 1)])"

section \<open>Decompression\<close>

text \<open>\<^verbatim>\<open>bytes_to_nodes\<close>: four bytes per node; a shorter rest makes an index run off the end.\<close>

fun bytes_to_nodes :: "int list \<Rightarrow> error + ReadNode list" where
  "bytes_to_nodes [] = Inr []"
| "bytes_to_nodes (a # b # c # d # rest) =
     (case bytes_to_nodes rest of
        Inl e \<Rightarrow> Inl e
      | Inr ns \<Rightarrow> Inr (\<lparr>l_type = a, l_data = b, r_type = c, r_data = d\<rparr> # ns))"
| "bytes_to_nodes rest = Inl IndexError"

text \<open>
  \<^verbatim>\<open>generate_tree_general\<close>. The pair \<open>(lft, rgt)\<close> is the \<open>left\<close> and \<open>right\<close> attribute of
  the fresh node \<open>tree\<close>; each branch assigns one of them. The recursive calls are on
  one-element lists.
\<close>

function generate_tree_general :: "ReadNode list \<Rightarrow> int \<Rightarrow> error + HuffmanNode" where
  "generate_tree_general node_lst root_index =
     (if length node_lst = 1 then
        Inr (HuffmanNode None (Some (Leaf (l_data (node_lst ! 0))))
               (Some (Leaf (r_data (node_lst ! 0)))) None)
      else
        (case py_index node_lst root_index of
           Inl e \<Rightarrow> Inl e
         | Inr rn \<Rightarrow>
             (case (if l_type rn = 1 then
                      (if l_data rn = 1 then
                         (case py_index node_lst 0 of
                            Inl e \<Rightarrow> Inl e
                          | Inr n0 \<Rightarrow>
                              (case generate_tree_general [n0] root_index of
                                 Inl e \<Rightarrow> Inl e
                               | Inr t \<Rightarrow> Inr (None, Some t)))
                       else
                         (case py_index node_lst 1 of
                            Inl e \<Rightarrow> Inl e
                          | Inr n1 \<Rightarrow>
                              (case generate_tree_general [n1] root_index of
                                 Inl e \<Rightarrow> Inl e
                               | Inr t \<Rightarrow> Inr (Some t, None))))
                    else Inr (Some (Leaf (l_data rn)), None))
              of
                Inl e \<Rightarrow> Inl e
              | Inr (lft, rgt) \<Rightarrow>
                  (case (if r_type rn = 1 then
                           (if r_data rn = 1 then
                              (case py_index node_lst 0 of
                                 Inl e \<Rightarrow> Inl e
                               | Inr n0 \<Rightarrow>
                                   (case generate_tree_general [n0] root_index of
                                      Inl e \<Rightarrow> Inl e
                                    | Inr t \<Rightarrow> Inr (lft, Some t)))
                            else
                              (case py_index node_lst 1 of
                                 Inl e \<Rightarrow> Inl e
                               | Inr n1 \<Rightarrow>
                                   (case generate_tree_general [n1] root_index of
                                      Inl e \<Rightarrow> Inl e
                                    | Inr t \<Rightarrow> Inr (Some t, rgt))))
                         else Inr (lft, Some (Leaf (r_data rn))))
                   of
                     Inl e \<Rightarrow> Inl e
                   | Inr (lft', rgt') \<Rightarrow> Inr (HuffmanNode None lft' rgt' None)))))"
  by pat_completeness auto
termination
  by (relation "measure (\<lambda>(node_lst, root_index). if length node_lst = 1 then 0 else 1)") auto

text \<open>
  \<^verbatim>\<open>generate_tree_postorder\<close>: the same frame with other index tests; its inner calls
  are calls of \<^verbatim>\<open>generate_tree_general\<close>.
\<close>

definition generate_tree_postorder :: "ReadNode list \<Rightarrow> int \<Rightarrow> error + HuffmanNode" where
  "generate_tree_postorder node_lst root_index =
     (if length node_lst = 1 then
        Inr (HuffmanNode None (Some (Leaf (l_data (node_lst ! 0))))
               (Some (Leaf (r_data (node_lst ! 0)))) None)
      else
        (case py_index node_lst root_index of
           Inl e \<Rightarrow> Inl e
         | Inr rn \<Rightarrow>
             (case (if l_type rn = 1 then
                      (if l_data rn = 0 then
                         (case py_index node_lst 1 of
                            Inl e \<Rightarrow> Inl e
                          | Inr n1 \<Rightarrow>
                              (case generate_tree_general [n1] root_index of
                                 Inl e \<Rightarrow> Inl e
                               | Inr t \<Rightarrow> Inr (None, Some t)))
                       else
                         (case py_index node_lst 0 of
                            Inl e \<Rightarrow> Inl e
                          | Inr n0 \<Rightarrow>
                              (case generate_tree_general [n0] root_index of
                                 Inl e \<Rightarrow> Inl e
                               | Inr t \<Rightarrow> Inr (Some t, None))))
                    else Inr (Some (Leaf (l_data rn)), None))
              of
                Inl e \<Rightarrow> Inl e
              | Inr (lft, rgt) \<Rightarrow>
                  (case (if r_type rn = 1 then
                           (if r_data rn = 1 then
                              (case py_index node_lst 1 of
                                 Inl e \<Rightarrow> Inl e
                               | Inr n1 \<Rightarrow>
                                   (case generate_tree_general [n1] root_index of
                                      Inl e \<Rightarrow> Inl e
                                    | Inr t \<Rightarrow> Inr (lft, Some t)))
                            else
                              (case py_index node_lst 0 of
                                 Inl e \<Rightarrow> Inl e
                               | Inr n0 \<Rightarrow>
                                   (case generate_tree_general [n0] root_index of
                                      Inl e \<Rightarrow> Inl e
                                    | Inr t \<Rightarrow> Inr (Some t, rgt))))
                         else Inr (lft, Some (Leaf (r_data rn))))
                   of
                     Inl e \<Rightarrow> Inl e
                   | Inr (lft', rgt') \<Rightarrow> Inr (HuffmanNode None lft' rgt' None)))))"

text \<open>
  \<^verbatim>\<open>generate_uncompressed\<close>: the body is a docstring and a \<^verbatim>\<open># todo\<close> comment, so
  every call returns \<^verbatim>\<open>None\<close>.
\<close>

definition generate_uncompressed :: "HuffmanNode \<Rightarrow> int list \<Rightarrow> int \<Rightarrow> int list option" where
  "generate_uncompressed tree text size_arg = None"

section \<open>Optimizer\<close>

text \<open>
  \<^verbatim>\<open>improve_tree\<close>: the body is a docstring and a \<^verbatim>\<open># todo\<close> comment. The call returns
  \<^verbatim>\<open>None\<close> and mutates nothing; the model returns the tree as it is after the call.
\<close>

definition improve_tree :: "HuffmanNode \<Rightarrow> (int, int) dict \<Rightarrow> HuffmanNode" where
  "improve_tree tree freq_dict = tree"

section \<open>Reference definitions\<close>

text \<open>
  The definitions of this section follow the words of the specification, not the code.
  They say what a claim expects, so that the code can be compared with it.
\<close>

subsection \<open>The merge policy\<close>

text \<open>
  Symbols in descending frequency, a tie going to the symbol that comes first in the
  table: a stable sort of the table's symbols on the negated frequency.
\<close>

definition spec_order :: "(int, int) dict \<Rightarrow> int list" where
  "spec_order freq = sort_key (\<lambda>k. - the (map_of freq k)) (map fst freq)"

text \<open>
  While more than one node is queued, the two tail nodes are removed and their merge
  (left the first removed, right the second) goes to the head of the queue.
\<close>

function spec_merge :: "HuffmanNode list \<Rightarrow> HuffmanNode list" where
  "spec_merge queue =
     (if length queue \<le> 1 then queue
      else spec_merge
             (HuffmanNode None (Some (last queue)) (Some (last (butlast queue))) None
              # butlast (butlast queue)))"
  by pat_completeness auto
termination
  by (relation "measure length") auto

definition spec_huffman_tree :: "(int, int) dict \<Rightarrow> HuffmanNode option" where
  "spec_huffman_tree freq =
     (case spec_merge (map (\<lambda>s. Leaf s) (spec_order freq)) of
        [node] \<Rightarrow> Some node
      | _ \<Rightarrow> None)"

text \<open>The root of the single-symbol edge case: two Leaf children, both carrying \<open>s\<close>.\<close>

definition leaf_pair_root :: "int \<Rightarrow> HuffmanNode \<Rightarrow> bool" where
  "leaf_pair_root s t =
     (case left t of
        None \<Rightarrow> False
      | Some l \<Rightarrow>
          (case right t of
             None \<Rightarrow> False
           | Some r \<Rightarrow> is_leaf l \<and> is_leaf r \<and> symbol l = Some s \<and> symbol r = Some s))"

subsection \<open>Root-to-leaf paths\<close>

text \<open>Every node has no child or two children.\<close>

fun full_tree :: "HuffmanNode \<Rightarrow> bool" where
  "full_tree (HuffmanNode sy l r num) =
     (case l of
        None \<Rightarrow> r = None
      | Some lt \<Rightarrow> (case r of None \<Rightarrow> False | Some rt \<Rightarrow> full_tree lt \<and> full_tree rt))"

text \<open>
  The leaves from left to right, each with the path from the root: \<open>0\<close> for a left
  edge, \<open>1\<close> for a right edge.
\<close>

fun spec_paths :: "HuffmanNode \<Rightarrow> (int option, string) dict" where
  "spec_paths (HuffmanNode sy l r num) =
     (if l = None \<and> r = None then [(sy, [])]
      else
        (case l of
           None \<Rightarrow> []
         | Some lt \<Rightarrow> map (\<lambda>(k, v). (k, CHR ''0'' # v)) (spec_paths lt))
        @ (case r of
             None \<Rightarrow> []
           | Some rt \<Rightarrow> map (\<lambda>(k, v). (k, CHR ''1'' # v)) (spec_paths rt)))"

fun leaf_count :: "HuffmanNode \<Rightarrow> nat" where
  "leaf_count (HuffmanNode sy l r num) =
     (if l = None \<and> r = None then 1
      else (case l of None \<Rightarrow> 0 | Some lt \<Rightarrow> leaf_count lt)
           + (case r of None \<Rightarrow> 0 | Some rt \<Rightarrow> leaf_count rt))"

text \<open>No code of the list is a prefix of a code at another position.\<close>

fun prefix_free :: "string list \<Rightarrow> bool" where
  "prefix_free [] = True"
| "prefix_free (c # cs) =
     (list_all (\<lambda>d. \<not> prefix c d \<and> \<not> prefix d c) cs \<and> prefix_free cs)"

subsection \<open>Postorder numbering and the serialized form\<close>

text \<open>
  Internal nodes numbered in postorder from \<open>n\<close> on (left subtree, right subtree, the
  node itself); the second component is the next free number. Leaves stay as they are.
\<close>

fun spec_number :: "HuffmanNode \<Rightarrow> int \<Rightarrow> HuffmanNode \<times> int" where
  "spec_number (HuffmanNode sy l r num) n =
     (case l of
        None \<Rightarrow> (HuffmanNode sy l r num, n)
      | Some lt \<Rightarrow>
          (case r of
             None \<Rightarrow> (HuffmanNode sy l r num, n)
           | Some rt \<Rightarrow>
               (case spec_number lt n of
                  (lt', n1) \<Rightarrow>
                    (case spec_number rt n1 of
                       (rt', n2) \<Rightarrow>
                         (HuffmanNode sy (Some lt') (Some rt') (Some n2), n2 + 1)))))"

fun internal_count :: "HuffmanNode \<Rightarrow> nat" where
  "internal_count (HuffmanNode sy l r num) =
     (case l of
        None \<Rightarrow> 0
      | Some lt \<Rightarrow>
          (case r of None \<Rightarrow> 0 | Some rt \<Rightarrow> internal_count lt + internal_count rt + 1))"

text \<open>One side of a record: flag 0 and the symbol of a Leaf, flag 1 and the number of an Internal node.\<close>

definition spec_child :: "HuffmanNode \<Rightarrow> int option list" where
  "spec_child c = (if is_leaf c then [Some 0, symbol c] else [Some 1, number c])"

fun spec_records :: "HuffmanNode \<Rightarrow> int option list" where
  "spec_records (HuffmanNode sy l r num) =
     (case l of
        None \<Rightarrow> []
      | Some lt \<Rightarrow>
          (case r of
             None \<Rightarrow> []
           | Some rt \<Rightarrow> spec_records lt @ spec_records rt @ spec_child lt @ spec_child rt))"

text \<open>The count byte, then one record of four bytes for each Internal node in postorder.\<close>

definition spec_serialized :: "HuffmanNode \<Rightarrow> int option list" where
  "spec_serialized t = Some (int (internal_count t)) # spec_records t"

subsection \<open>Bit packing\<close>

text \<open>Groups of eight bits; the last group is padded on the right with zero bits.\<close>

function spec_groups :: "string \<Rightarrow> string list" where
  "spec_groups bits =
     (if bits = [] then []
      else (take 8 bits @ replicate (8 - length bits) CHR ''0'') # spec_groups (drop 8 bits))"
  by pat_completeness auto
termination
  by (relation "measure length") auto

definition spec_byte :: "string \<Rightarrow> int" where
  "spec_byte bits = foldl (\<lambda>acc c. 2 * acc + (if c = CHR ''1'' then 1 else 0)) 0 bits"

definition spec_pack :: "int list \<Rightarrow> (int option, string) dict \<Rightarrow> int list" where
  "spec_pack text codes =
     map spec_byte (spec_groups (concat (map (\<lambda>i. the (map_of codes (Some i))) text)))"

section \<open>Results\<close>

subsection \<open>Tree construction on the edge cases\<close>

text \<open>
  C10. On the empty frequency table \<^verbatim>\<open>huffman_tree\<close> fails and produces no tree. The
  failure is the \<^verbatim>\<open>IndexError\<close> of \<^verbatim>\<open>nodes_list.pop()\<close> on the empty node list: the
  function has no check of its own for the empty table.
\<close>

theorem huffman_tree_empty: "huffman_tree [] = Inl IndexError"
  by (simp add: huffman_tree_def find_biggest_key_def)

text \<open>The error is not the \<open>EmptyInputError\<close> that the claim names.\<close>

theorem huffman_tree_empty_counterexample: "huffman_tree [] \<noteq> Inl EmptyInputError"
  by (simp add: huffman_tree_def find_biggest_key_def)

text \<open>
  C8. On a frequency table with exactly one symbol \<open>s\<close>, \<^verbatim>\<open>huffman_tree\<close> returns the
  bare Leaf of \<open>s\<close>: the first \<^verbatim>\<open>pop\<close> empties the node list and the node is returned
  as it is. \<^verbatim>\<open>get_codes\<close> of a Leaf root is the empty table, so \<open>s\<close> has no code.
\<close>

theorem huffman_tree_single:
  "huffman_tree [(s, n)] = Inr (Leaf s) \<and> get_codes (Leaf s) = Inr []"
  by (simp add: huffman_tree_def find_biggest_key_def)

text \<open>
  At the table \<open>{5: 10}\<close> the result is not an Internal root over two Leaf children,
  and the code table has no entry for 5.
\<close>

theorem huffman_tree_single_counterexample:
  "huffman_tree [(5, 10)] = Inr (Leaf 5) \<and> \<not> leaf_pair_root 5 (Leaf 5)
   \<and> get_codes (Leaf 5) = Inr [] \<and> map_of ([] :: (int option, string) dict) (Some 5) = None"
  by (simp add: huffman_tree_def find_biggest_key_def leaf_pair_root_def)

subsection \<open>Round trip of the codec\<close>

text \<open>
  C1. Decoding the compressed form of \<open>S\<close> should give \<open>S\<close> back. On the bytes
  \<open>[65, 66, 67, 66]\<close> the tree, the code table and the packed byte are computed, and
  \<^verbatim>\<open>generate_uncompressed\<close> returns \<^verbatim>\<open>None\<close>, not the input: its body was never written.
\<close>

theorem roundtrip_stub:
  "huffman_tree (make_freq_dict [65, 66, 67, 66]) = Inr (Internal (Leaf 66) (Internal (Leaf 67) (Leaf 65)))
   \<and> get_codes (Internal (Leaf 66) (Internal (Leaf 67) (Leaf 65)))
       = Inr [(Some 66, ''0''), (Some 67, ''10''), (Some 65, ''11'')]
   \<and> generate_compressed [65, 66, 67, 66] [(Some 66, ''0''), (Some 67, ''10''), (Some 65, ''11'')]
       = Inr [208]
   \<and> generate_uncompressed (Internal (Leaf 66) (Internal (Leaf 67) (Leaf 65))) [208] 4 = None
   \<and> generate_uncompressed (Internal (Leaf 66) (Internal (Leaf 67) (Leaf 65))) [208] 4
       \<noteq> Some [65, 66, 67, 66]"
  by code_simp

subsection \<open>Bit packing\<close>

text \<open>
  C4. The packed output should be the concatenated codes in groups of eight bits, the
  last group padded with zeros. With the codes \<open>{0: "0", 1: "10", 2: "11"}\<close>, eight
  bytes 1 give sixteen bits: the code emits one byte where two are expected, because the
  loop runs \<open>len mod 8 + 1\<close> times. With one more byte 0 (seventeen bits) the second
  slice has nine bits and \<^verbatim>\<open>bits_to_byte\<close> raises on the negative shift. The scenario of
  the claim, \<open>[1, 2, 1, 0]\<close>, does pack to \<open>10111000\<close>.
\<close>

theorem generate_compressed_sixteen_bits:
  "generate_compressed [1, 1, 1, 1, 1, 1, 1, 1] [(Some 0, ''0''), (Some 1, ''10''), (Some 2, ''11'')]
     = Inr [170]
   \<and> spec_pack [1, 1, 1, 1, 1, 1, 1, 1] [(Some 0, ''0''), (Some 1, ''10''), (Some 2, ''11'')]
     = [170, 170]
   \<and> generate_compressed [1, 1, 1, 1, 1, 1, 1, 1, 0]
       [(Some 0, ''0''), (Some 1, ''10''), (Some 2, ''11'')] = Inl ValueError
   \<and> generate_compressed [1, 2, 1, 0] [(Some 0, ''0''), (Some 1, ''10''), (Some 2, ''11'')]
     = Inr [184]
   \<and> byte_to_bits 184 = Inr ''10111000''"
  by code_simp

subsection \<open>Numbering and serialization\<close>

text \<open>
  C7. \<^verbatim>\<open>number_nodes\<close> should number the Internal nodes 0, 1, 2, ... in postorder and
  leave the Leaf nodes alone. On the tree with one Internal node over the leaves 3 and 2
  the root gets 2 instead of 0 and the leaves get 0 and 1. On a tree with four Internal
  nodes the root and the innermost Internal node both get the number 2.
\<close>

theorem number_nodes_not_postorder:
  "number_nodes (Internal (Leaf 3) (Leaf 2))
     = HuffmanNode None (Some (HuffmanNode (Some 3) None None (Some 0)))
         (Some (HuffmanNode (Some 2) None None (Some 1))) (Some 2)
   \<and> fst (spec_number (Internal (Leaf 3) (Leaf 2)) 0)
     = HuffmanNode None (Some (Leaf 3)) (Some (Leaf 2)) (Some 0)
   \<and> number_nodes (Internal (Internal (Leaf 1) (Leaf 2)) (Internal (Leaf 3) (Internal (Leaf 4) (Leaf 5))))
     = HuffmanNode None
         (Some (HuffmanNode None (Some (HuffmanNode (Some 1) None None (Some 0)))
                  (Some (HuffmanNode (Some 2) None None (Some 1))) (Some 0)))
         (Some (HuffmanNode None (Some (HuffmanNode (Some 3) None None (Some 1)))
                  (Some (HuffmanNode None (Some (HuffmanNode (Some 4) None None (Some 2)))
                           (Some (HuffmanNode (Some 5) None None (Some 3))) (Some 2)))
                  (Some 1)))
         (Some 2)"
  by code_simp

text \<open>
  C5. The serialized tree should be the count of Internal nodes followed by one record
  of four bytes for each Internal node in postorder. On the tree with Leaf 5 on the left
  and an Internal node over the leaves 3 and 2 on the right, numbered in postorder,
  \<^verbatim>\<open>tree_to_bytes\<close> writes the left leaf before the record of the inner node, so the
  eight bytes are not the two records. When the tree is numbered by \<^verbatim>\<open>number_nodes\<close>
  the count byte is 3 for two Internal nodes.
\<close>

theorem serialized_right_leaning:
  "fst (spec_number (Internal (Leaf 5) (Internal (Leaf 3) (Leaf 2))) 0)
     = HuffmanNode None (Some (Leaf 5))
         (Some (HuffmanNode None (Some (Leaf 3)) (Some (Leaf 2)) (Some 0))) (Some 1)
   \<and> num_nodes_to_bytes (fst (spec_number (Internal (Leaf 5) (Internal (Leaf 3) (Leaf 2))) 0))
     = Inr [2]
   \<and> tree_to_bytes (fst (spec_number (Internal (Leaf 5) (Internal (Leaf 3) (Leaf 2))) 0))
     = Inr [0, 5, 0, 3, 0, 2, 1, 0]
   \<and> spec_serialized (fst (spec_number (Internal (Leaf 5) (Internal (Leaf 3) (Leaf 2))) 0))
     = map Some [2, 0, 3, 0, 2, 0, 5, 1, 0]
   \<and> num_nodes_to_bytes (number_nodes (Internal (Leaf 5) (Internal (Leaf 3) (Leaf 2))))
     = Inr [3]
   \<and> tree_to_bytes (number_nodes (Internal (Leaf 5) (Internal (Leaf 3) (Leaf 2))))
     = Inr [0, 5, 0, 3, 0, 2, 1, 1]"
  by code_simp

text \<open>
  C6. Serializing and deserializing should give a tree with the same code table. On the
  tree with an Internal node over the leaves 3 and 2 on the left and Leaf 5 on the
  right (two Internal nodes, root index 1), \<^verbatim>\<open>generate_tree_general\<close> rebuilds the left
  subtree from the record of the root itself, and the code table differs;
  \<^verbatim>\<open>generate_tree_postorder\<close> returns a node without a left child, on which
  \<^verbatim>\<open>get_codes\<close> raises.
\<close>

theorem tree_roundtrip_fails:
  "fst (spec_number (Internal (Internal (Leaf 3) (Leaf 2)) (Leaf 5)) 0)
     = HuffmanNode None (Some (HuffmanNode None (Some (Leaf 3)) (Some (Leaf 2)) (Some 0)))
         (Some (Leaf 5)) (Some 1)
   \<and> tree_to_bytes (fst (spec_number (Internal (Internal (Leaf 3) (Leaf 2)) (Leaf 5)) 0))
     = Inr [0, 3, 0, 2, 1, 0, 0, 5]
   \<and> bytes_to_nodes [0, 3, 0, 2, 1, 0, 0, 5]
     = Inr [\<lparr>l_type = 0, l_data = 3, r_type = 0, r_data = 2\<rparr>,
            \<lparr>l_type = 1, l_data = 0, r_type = 0, r_data = 5\<rparr>]
   \<and> generate_tree_general
        [\<lparr>l_type = 0, l_data = 3, r_type = 0, r_data = 2\<rparr>,
         \<lparr>l_type = 1, l_data = 0, r_type = 0, r_data = 5\<rparr>] (2 - 1)
     = Inr (Internal (Internal (Leaf 0) (Leaf 5)) (Leaf 5))
   \<and> get_codes (Internal (Internal (Leaf 0) (Leaf 5)) (Leaf 5))
     = Inr [(Some 0, ''00''), (Some 5, ''1'')]
   \<and> get_codes (fst (spec_number (Internal (Internal (Leaf 3) (Leaf 2)) (Leaf 5)) 0))
     = Inr [(Some 3, ''00''), (Some 2, ''01''), (Some 5, ''1'')]
   \<and> generate_tree_postorder
        [\<lparr>l_type = 0, l_data = 3, r_type = 0, r_data = 2\<rparr>,
         \<lparr>l_type = 1, l_data = 0, r_type = 0, r_data = 5\<rparr>] (2 - 1)
     = Inr (HuffmanNode None None (Some (Leaf 5)) None)
   \<and> get_codes (HuffmanNode None None (Some (Leaf 5)) None) = Inl AttributeError"
  by code_simp

subsection \<open>Optimizer\<close>

text \<open>
  C9. \<^verbatim>\<open>improve_tree\<close> should reassign the leaf symbols so that the average code length
  is minimal for the shape. On the tree and the frequencies of its own doctest the tree
  stays as it is, with average length 249/100, while the assignment that puts 97, 98
  and 99 on the three leaves of depth two reaches 231/100, the value the doctest
  expects.
\<close>

theorem improve_tree_unchanged:
  "improve_tree
     (Internal (Internal (Leaf 99) (Leaf 100)) (Internal (Leaf 101) (Internal (Leaf 97) (Leaf 98))))
     [(97, 26), (98, 23), (99, 20), (100, 16), (101, 15)]
     = Internal (Internal (Leaf 99) (Leaf 100)) (Internal (Leaf 101) (Internal (Leaf 97) (Leaf 98)))
   \<and> avg_length
       (improve_tree
          (Internal (Internal (Leaf 99) (Leaf 100))
             (Internal (Leaf 101) (Internal (Leaf 97) (Leaf 98))))
          [(97, 26), (98, 23), (99, 20), (100, 16), (101, 15)])
       [(97, 26), (98, 23), (99, 20), (100, 16), (101, 15)] = Inr (249 / 100)
   \<and> avg_length
       (Internal (Internal (Leaf 97) (Leaf 98)) (Internal (Leaf 99) (Internal (Leaf 100) (Leaf 101))))
       [(97, 26), (98, 23), (99, 20), (100, 16), (101, 15)] = Inr (231 / 100)
   \<and> (231 / 100 :: rat) < 249 / 100"
  by code_simp

subsection \<open>Code table of a tree\<close>

text \<open>Storing under a key that is not in the dictionary appends the entry.\<close>

lemma update_fresh_key: "k \<notin> fst ` set d \<Longrightarrow> AList.update k v d = d @ [(k, v)]"
  by (induction d) auto

lemma dict_update_fresh:
  "distinct (map fst (d @ temp)) \<Longrightarrow> dict_update d temp = d @ temp"
proof (induction temp arbitrary: d)
  case Nil
  then show ?case by (simp add: dict_update_def)
next
  case (Cons p temp)
  obtain k v where p: "p = (k, v)" by (cases p)
  from Cons.prems have fresh: "k \<notin> fst ` set d" by (auto simp: p)
  from Cons.prems have "distinct (map fst ((d @ [(k, v)]) @ temp))" by (auto simp: p)
  then have "dict_update (d @ [(k, v)]) temp = (d @ [(k, v)]) @ temp" by (rule Cons.IH)
  then show ?case
    using fresh by (simp add: dict_update_def p update_fresh_key)
qed

lemma fst_comp_prefixed: "fst \<circ> (\<lambda>(k, v). (k, c # v)) = fst"
  by (auto simp: fun_eq_iff)

lemma fst_prefixed: "map fst (map (\<lambda>(k, v). (k, c # v)) ps) = map fst ps"
  by (simp add: fst_comp_prefixed)

lemma keys_prefixed: "fst ` set (map (\<lambda>(k, v). (k, c # v)) ps) = fst ` set ps"
  by force

lemma snd_prefixed: "map snd (map (\<lambda>(k, v). (k, c # v)) ps) = map ((#) c) (map snd ps)"
  by (induction ps) auto

lemma snd_spec_paths_internal:
  "map snd (spec_paths (HuffmanNode sy (Some lt) (Some rt) num))
     = map ((#) CHR ''0'') (map snd (spec_paths lt)) @ map ((#) CHR ''1'') (map snd (spec_paths rt))"
  using snd_prefixed [of "CHR ''0''" "spec_paths lt"] snd_prefixed [of "CHR ''1''" "spec_paths rt"]
  by simp

lemma spec_paths_leaf: "is_leaf t \<Longrightarrow> spec_paths t = [(symbol t, [])]"
  by (cases t) (simp add: is_leaf_def)

lemma get_codes_full:
  "full_tree t \<Longrightarrow> \<not> is_leaf t \<Longrightarrow> distinct (map fst (spec_paths t))
   \<Longrightarrow> get_codes t = Inr (spec_paths t)"
proof (induction t)
  case (HuffmanNode sy l r num)
  from HuffmanNode.prems(1,2) obtain lt rt where l: "l = Some lt" and r: "r = Some rt"
    and flt: "full_tree lt" and frt: "full_tree rt"
    by (auto simp: is_leaf_def split: option.splits)
  let ?L = "map (\<lambda>(k, v). (k, CHR ''0'' # v)) (spec_paths lt)"
  let ?R = "map (\<lambda>(k, v). (k, CHR ''1'' # v)) (spec_paths rt)"
  from HuffmanNode.prems(3) have dist: "distinct (map fst (?L @ ?R))"
    by (simp add: l r)
  then have dl: "distinct (map fst (spec_paths lt))" and dr: "distinct (map fst (spec_paths rt))"
    by (simp_all add: fst_comp_prefixed)
  have left_part:
    "(if is_leaf lt then Inr (AList.update (symbol lt) ''0'' [])
      else (case get_codes lt of
              Inl e \<Rightarrow> Inl e
            | Inr temp1 \<Rightarrow> Inr (dict_update [] (map (\<lambda>(k, v). (k, CHR ''0'' # v)) temp1))))
     = (Inr ?L :: error + (int option, string) dict)"
  proof (cases "is_leaf lt")
    case True
    then show ?thesis by (simp add: spec_paths_leaf)
  next
    case False
    have "get_codes lt = Inr (spec_paths lt)"
      using HuffmanNode.IH(1) [of lt] flt False dl by (simp add: l)
    moreover have "dict_update [] ?L = ?L"
      using dict_update_fresh [of "[]" ?L] dl by (simp add: fst_comp_prefixed)
    ultimately show ?thesis using False by simp
  qed
  have right_part:
    "(if is_leaf rt then Inr (AList.update (symbol rt) ''1'' ?L)
      else (case get_codes rt of
              Inl e \<Rightarrow> Inl e
            | Inr temp2 \<Rightarrow> Inr (dict_update ?L (map (\<lambda>(k, v). (k, CHR ''1'' # v)) temp2))))
     = (Inr (?L @ ?R) :: error + (int option, string) dict)"
  proof (cases "is_leaf rt")
    case True
    then have R: "?R = [(symbol rt, ''1'')]" by (simp add: spec_paths_leaf)
    have "distinct (map fst (spec_paths lt) @ map fst (spec_paths rt))"
      using dist by (simp add: fst_comp_prefixed)
    then have "symbol rt \<notin> fst ` set (spec_paths lt)"
      using True by (auto simp: spec_paths_leaf)
    then have "symbol rt \<notin> fst ` set ?L" unfolding keys_prefixed .
    then show ?thesis using True R by (simp add: update_fresh_key)
  next
    case False
    have "get_codes rt = Inr (spec_paths rt)"
      using HuffmanNode.IH(2) [of rt] frt False dr by (simp add: r)
    moreover have "dict_update ?L ?R = ?L @ ?R"
      using dist by (rule dict_update_fresh)
    ultimately show ?thesis using False by simp
  qed
  show ?case
    by (simp add: l r left_part right_part)
qed


lemma length_spec_paths: "full_tree t \<Longrightarrow> length (spec_paths t) = leaf_count t"
proof (induction t)
  case (HuffmanNode sy l r num)
  show ?case
  proof (cases l)
    case None
    with HuffmanNode.prems show ?thesis by simp
  next
    case (Some lt)
    with HuffmanNode.prems obtain rt where r: "r = Some rt"
      and "full_tree lt" and "full_tree rt"
      by (auto split: option.splits)
    then show ?thesis
      using HuffmanNode.IH(1) [of lt] HuffmanNode.IH(2) [of rt] Some by simp
  qed
qed

lemma prefix_free_append:
  "prefix_free (xs @ ys) =
     (prefix_free xs \<and> prefix_free ys
      \<and> (\<forall>x \<in> set xs. \<forall>y \<in> set ys. \<not> prefix x y \<and> \<not> prefix y x))"
  by (induction xs) (auto simp: list_all_iff)

lemma prefix_free_Cons_map: "prefix_free (map ((#) c) xs) = prefix_free xs"
  by (induction xs) (auto simp: list_all_iff)

lemma prefix_free_spec_paths: "full_tree t \<Longrightarrow> prefix_free (map snd (spec_paths t))"
proof (induction t)
  case (HuffmanNode sy l r num)
  show ?case
  proof (cases l)
    case None
    with HuffmanNode.prems show ?thesis by simp
  next
    case (Some lt)
    with HuffmanNode.prems obtain rt where r: "r = Some rt"
      and "full_tree lt" and "full_tree rt"
      by (auto split: option.splits)
    then have "prefix_free (map snd (spec_paths lt))" and "prefix_free (map snd (spec_paths rt))"
      using HuffmanNode.IH(1) [of lt] HuffmanNode.IH(2) [of rt] Some by simp_all
    then show ?thesis
      unfolding Some r snd_spec_paths_internal prefix_free_append prefix_free_Cons_map
      by auto
  qed
qed

lemma prefix_free_distinct: "prefix_free cs \<Longrightarrow> distinct cs"
  by (induction cs) (auto simp: list_all_iff)

text \<open>
  C3. For a tree whose root is an Internal node, in which every node has no child or two
  children and no symbol sits on two leaves (as in a tree built over two or more distinct
  symbols), \<^verbatim>\<open>get_codes\<close> returns the table that gives each leaf symbol its
  root-to-leaf path, a left edge writing \<open>0\<close> and a right edge \<open>1\<close>, so that a Leaf
  child has a code one bit longer than the path to its parent. The table has one entry
  for each leaf, the codes are pairwise different, and none is a prefix of another.
\<close>

theorem get_codes_paths:
  assumes "full_tree t" and "\<not> is_leaf t" and "distinct (map fst (spec_paths t))"
  shows "get_codes t = Inr (spec_paths t)
         \<and> length (spec_paths t) = leaf_count t
         \<and> distinct (map snd (spec_paths t))
         \<and> prefix_free (map snd (spec_paths t))"
  using assms
  by (simp add: get_codes_full length_spec_paths prefix_free_spec_paths prefix_free_distinct)

text \<open>The tree of the frequency table \<open>{65: 1, 66: 2, 67: 1}\<close> as an instance.\<close>

theorem get_codes_paths_witness:
  "full_tree (Internal (Leaf 66) (Internal (Leaf 67) (Leaf 65)))
   \<and> \<not> is_leaf (Internal (Leaf 66) (Internal (Leaf 67) (Leaf 65)))
   \<and> distinct (map fst (spec_paths (Internal (Leaf 66) (Internal (Leaf 67) (Leaf 65)))))
   \<and> get_codes (Internal (Leaf 66) (Internal (Leaf 67) (Leaf 65)))
       = Inr [(Some 66, ''0''), (Some 67, ''10''), (Some 65, ''11'')]
   \<and> leaf_count (Internal (Leaf 66) (Internal (Leaf 67) (Leaf 65))) = 3
   \<and> prefix_free [''0'', ''10'', ''11'']"
proof -
  have h1: "full_tree (Internal (Leaf 66) (Internal (Leaf 67) (Leaf 65)))" by simp
  have h2: "\<not> is_leaf (Internal (Leaf 66) (Internal (Leaf 67) (Leaf 65)))"
    by (simp add: is_leaf_def)
  have h3: "distinct (map fst (spec_paths (Internal (Leaf 66) (Internal (Leaf 67) (Leaf 65)))))"
    by simp
  have paths: "spec_paths (Internal (Leaf 66) (Internal (Leaf 67) (Leaf 65)))
      = [(Some 66, ''0''), (Some 67, ''10''), (Some 65, ''11'')]" by simp
  show ?thesis
    using get_codes_paths [OF h1 h2 h3] h1 h2 h3 unfolding paths by simp
qed


subsection \<open>The merge policy\<close>

text \<open>
  When every key of the list is in the table, no lookup of \<^verbatim>\<open>find_biggest_key\<close> fails
  and the scan is a fold that keeps the first key of maximal frequency.
\<close>

lemma scan_keys_fold:
  "set keys \<subseteq> fst ` set freq_dict \<Longrightarrow> current_key \<in> fst ` set freq_dict \<Longrightarrow>
   scan_keys freq_dict keys current_key
     = Inr (fold (\<lambda>key cur. if the (map_of freq_dict key) > the (map_of freq_dict cur)
                              then key else cur)
              keys current_key)"
proof (induction keys arbitrary: current_key)
  case Nil
  then show ?case by simp
next
  case (Cons key keys)
  from Cons.prems obtain fk where fk: "map_of freq_dict key = Some fk"
    by (cases "map_of freq_dict key") (auto simp: map_of_eq_None_iff)
  from Cons.prems obtain fc where fc: "map_of freq_dict current_key = Some fc"
    by (cases "map_of freq_dict current_key") (auto simp: map_of_eq_None_iff)
  have "(if fk > fc then key else current_key) \<in> fst ` set freq_dict"
    using Cons.prems by auto
  with Cons.IH [of "if fk > fc then key else current_key"] Cons.prems(1)
  show ?case by (simp add: fk fc)
qed

lemma fold_first_max:
  fixes f :: "'a \<Rightarrow> int"
  defines "step \<equiv> (\<lambda>key cur. if f key > f cur then key else cur)"
  shows "(fold step ks cur = cur \<and> (\<forall>k \<in> set ks. f k \<le> f cur))
       \<or> (\<exists>xs zs. ks = xs @ fold step ks cur # zs \<and> (\<forall>x \<in> set xs. f x < f (fold step ks cur))
            \<and> f cur < f (fold step ks cur) \<and> (\<forall>z \<in> set zs. f z \<le> f (fold step ks cur)))"
proof (induction ks arbitrary: cur)
  case Nil
  then show ?case by simp
next
  case (Cons k ks)
  let ?c = "step k cur"
  let ?b = "fold step ks ?c"
  have b: "fold step (k # ks) cur = ?b" by simp
  from Cons.IH [of ?c] show ?case
  proof (elim disjE conjE exE)
    assume same: "?b = ?c" and le: "\<forall>k \<in> set ks. f k \<le> f ?c"
    show ?thesis
    proof (cases "f k > f cur")
      case True
      then have c: "?c = k" by (simp add: step_def)
      have bk: "?b = k" using same unfolding c .
      have "k # ks = [] @ ?b # ks" unfolding bk by simp
      moreover have "f cur < f ?b" using True unfolding bk .
      moreover have "\<forall>z \<in> set ks. f z \<le> f ?b" using le c bk by metis
      ultimately show ?thesis unfolding b by (intro disjI2 exI [of _ "[]"] exI [of _ ks]) simp
    next
      case False
      then have c: "?c = cur" by (simp add: step_def)
      have bc: "?b = cur" using same unfolding c .
      have "\<forall>k \<in> set ks. f k \<le> f cur" using le c by metis
      then have "\<forall>k' \<in> set (k # ks). f k' \<le> f cur" using False by simp
      then show ?thesis unfolding b bc by (intro disjI1 conjI refl)
    qed
  next
    fix xs zs
    assume split: "ks = xs @ ?b # zs" and lt: "\<forall>x \<in> set xs. f x < f ?b"
      and clt: "f ?c < f ?b" and le: "\<forall>z \<in> set zs. f z \<le> f ?b"
    have "f k \<le> f ?c" and "f cur \<le> f ?c" by (simp_all add: step_def)
    then have "f k < f ?b" and "f cur < f ?b" using clt by simp_all
    then show ?thesis unfolding b using split lt le
      by (intro disjI2 exI [of _ "k # xs"] exI [of _ zs]) simp
  qed
qed


lemma find_biggest_key_first_max:
  assumes "key_list \<noteq> []" and "set key_list \<subseteq> fst ` set freq_dict"
  shows "\<exists>b xs zs. find_biggest_key freq_dict key_list = Inr (Some b)
           \<and> key_list = xs @ b # zs
           \<and> (\<forall>x \<in> set xs. the (map_of freq_dict x) < the (map_of freq_dict b))
           \<and> (\<forall>z \<in> set zs. the (map_of freq_dict z) \<le> the (map_of freq_dict b))"
proof -
  let ?f = "\<lambda>k. the (map_of freq_dict k)"
  let ?step = "\<lambda>key cur. if ?f key > ?f cur then key else cur"
  let ?b = "fold ?step key_list (hd key_list)"
  from assms have hd_in: "hd key_list \<in> fst ` set freq_dict" by (cases key_list) auto
  have found: "find_biggest_key freq_dict key_list = Inr (Some ?b)"
    using assms(1) scan_keys_fold [OF assms(2) hd_in] by (simp add: find_biggest_key_def)
  from fold_first_max [of ?f key_list "hd key_list"]
  have "\<exists>xs zs. key_list = xs @ ?b # zs \<and> (\<forall>x \<in> set xs. ?f x < ?f ?b)
          \<and> (\<forall>z \<in> set zs. ?f z \<le> ?f ?b)"
  proof (elim disjE conjE exE)
    assume same: "?b = hd key_list" and le: "\<forall>k \<in> set key_list. ?f k \<le> ?f (hd key_list)"
    from assms(1) have "key_list = [] @ hd key_list # tl key_list" by simp
    moreover from le have "\<forall>z \<in> set (tl key_list). ?f z \<le> ?f (hd key_list)"
      using assms(1) by (metis list.set_sel(2))
    ultimately show ?thesis unfolding same
      by (intro exI [of _ "[]"] exI [of _ "tl key_list"]) simp
  next
    fix xs zs
    assume "key_list = xs @ ?b # zs" and "\<forall>x \<in> set xs. ?f x < ?f ?b"
      and "\<forall>z \<in> set zs. ?f z \<le> ?f ?b"
    then show ?thesis by blast
  qed
  with found show ?thesis by blast
qed

lemma find_biggest_key_total:
  assumes "set key_list \<subseteq> fst ` set freq_dict"
  shows "\<exists>bk. find_biggest_key freq_dict key_list = Inr bk"
proof (cases "key_list = []")
  case True
  then show ?thesis by (simp add: find_biggest_key_def)
next
  case False
  from find_biggest_key_first_max [OF False assms] show ?thesis by blast
qed

lemma insort_key_least:
  fixes g :: "'a \<Rightarrow> int"
  shows "\<forall>z \<in> set ys. g b \<le> g z \<Longrightarrow> insort_key g b ys = b # ys"
  by (cases ys) simp_all

lemma sort_key_first_min:
  fixes g :: "'a \<Rightarrow> int"
  assumes "\<forall>x \<in> set xs. g b < g x" and "\<forall>z \<in> set zs. g b \<le> g z"
  shows "sort_key g (xs @ b # zs) = b # sort_key g (xs @ zs)"
  using assms(1)
proof (induction xs)
  case Nil
  have "insort_key g b (sort_key g zs) = b # sort_key g zs"
    using assms(2) by (intro insort_key_least) simp
  then show ?case by simp
next
  case (Cons x xs)
  then have "sort_key g (xs @ b # zs) = b # sort_key g (xs @ zs)" and "\<not> g x \<le> g b"
    by auto
  then show ?case by simp
qed

lemma fill_nodes_eq: "fill_nodes temp nodes_list = nodes_list @ map (\<lambda>s. Leaf s) (rev temp)"
proof (induction temp arbitrary: nodes_list rule: rev_induct)
  case Nil
  then show ?case by simp
next
  case (snoc x xs)
  have "fill_nodes (xs @ [x]) nodes_list = fill_nodes xs (nodes_list @ [Leaf x])"
    by (subst fill_nodes.simps) simp
  then show ?case by (simp add: snoc.IH del: fill_nodes.simps)
qed

lemma merge_loop_spec_merge:
  "nodes_list \<noteq> [] \<Longrightarrow> \<exists>t. spec_merge nodes_list = [t] \<and> merge_loop nodes_list = Inr t"
proof (induction nodes_list rule: length_induct)
  case (1 q)
  show ?case
  proof (cases "butlast q = []")
    case True
    with 1(2) have q: "q = [last q]" by (metis append_butlast_last_id append_Nil)
    then have "length q \<le> 1" by (metis length_Cons list.size(3) One_nat_def le_refl)
    then have "spec_merge q = [last q]" using q by (subst spec_merge.simps) simp
    moreover have "merge_loop q = Inr (last q)"
      using 1(2) True by (subst merge_loop.simps) simp
    ultimately show ?thesis by blast
  next
    case False
    let ?q' = "HuffmanNode None (Some (last q)) (Some (last (butlast q))) None # butlast (butlast q)"
    from False 1(2) have len: "2 \<le> length q"
      by (cases q rule: rev_cases) (auto simp: Suc_le_eq)
    then have "length ?q' < length q" by simp
    with 1(1) obtain t where t: "spec_merge ?q' = [t]" "merge_loop ?q' = Inr t" by blast
    have "spec_merge q = spec_merge ?q'" using len by (subst spec_merge.simps) simp
    moreover have "merge_loop q = merge_loop ?q'"
      using False 1(2) by (subst merge_loop.simps) (simp add: Let_def)
    ultimately show ?thesis using t by simp
  qed
qed


lemma keys_delete: "fst ` set (AList.delete k al) = fst ` set al - {k}"
  by (induction al) auto

lemma order_loop_sorted:
  assumes "distinct key_list"
    and "set key_list \<subseteq> fst ` set frequency"
    and "set key_list \<subseteq> fst ` set freq_dict"
    and "find_biggest_key freq_dict key_list = Inr biggest_key"
  shows "order_loop freq_dict temp frequency key_list biggest_key
           = Inr (temp @ sort_key (\<lambda>k. - the (map_of freq_dict k)) key_list)"
  using assms
proof (induction "length key_list" arbitrary: key_list temp frequency biggest_key)
  case 0
  then show ?case by simp
next
  case (Suc n)
  let ?f = "\<lambda>k. the (map_of freq_dict k)"
  let ?g = "\<lambda>k. - the (map_of freq_dict k)"
  from Suc.hyps(2) have ne: "key_list \<noteq> []" by auto
  from find_biggest_key_first_max [OF ne Suc.prems(3)] Suc.prems(4)
  obtain b xs zs where bk: "biggest_key = Some b" and split: "key_list = xs @ b # zs"
    and before: "\<forall>x \<in> set xs. ?f x < ?f b" and after: "\<forall>z \<in> set zs. ?f z \<le> ?f b"
    by auto
  from before have "b \<notin> set xs" by auto
  then have rem: "remove1 b key_list = xs @ zs" by (simp add: split remove1_append)
  have b_in: "b \<in> set key_list" by (simp add: split)
  with Suc.prems(2) have b_freq: "b \<in> set (map fst frequency)" by auto
  have dist': "distinct (xs @ zs)" using Suc.prems(1) by (simp add: split)
  have not_b: "b \<notin> set (xs @ zs)" using Suc.prems(1) by (simp add: split)
  have sub_freq: "set (xs @ zs) \<subseteq> fst ` set (AList.delete b frequency)"
    using Suc.prems(2) not_b unfolding keys_delete split by auto
  have sub_dict: "set (xs @ zs) \<subseteq> fst ` set freq_dict"
    using Suc.prems(3) unfolding split by auto
  from find_biggest_key_total [OF sub_dict]
  obtain bk' where bk': "find_biggest_key freq_dict (xs @ zs) = Inr bk'" by blast
  have len: "n = length (xs @ zs)" using Suc.hyps(2) by (simp add: split)
  have rest: "order_loop freq_dict (temp @ [b]) (AList.delete b frequency) (xs @ zs) bk'
                = Inr ((temp @ [b]) @ sort_key ?g (xs @ zs))"
    by (rule Suc.hyps(1) [OF len dist' sub_freq sub_dict bk'])
  have sorted: "sort_key ?g key_list = b # sort_key ?g (xs @ zs)"
    unfolding split using before after by (intro sort_key_first_min) auto
  have "order_loop freq_dict temp frequency key_list biggest_key
          = order_loop freq_dict (temp @ [b]) (AList.delete b frequency) (xs @ zs) bk'"
    using ne b_in b_freq
    by (subst order_loop.simps) (simp add: bk rem bk' del: order_loop.simps)
  then show ?case by (simp add: rest sorted del: order_loop.simps)
qed

text \<open>The three loops together: the queue handed to the merge loop is the sorted one.\<close>

lemma huffman_tree_as_merge:
  assumes "distinct (map fst freq)"
  shows "huffman_tree freq = merge_loop (map (\<lambda>s. Leaf s) (spec_order freq))"
proof -
  let ?keys = "map fst freq"
  have sub: "set ?keys \<subseteq> fst ` set freq" by simp
  from find_biggest_key_total [OF sub]
  obtain bk where bk: "find_biggest_key freq ?keys = Inr bk" by blast
  have order: "order_loop freq [] freq ?keys bk = Inr (spec_order freq)"
    using order_loop_sorted [OF assms sub sub bk, of "[]"] by (simp add: spec_order_def)
  have nodes: "rev (fill_nodes (spec_order freq) []) = map (\<lambda>s. Leaf s) (spec_order freq)"
    by (simp add: fill_nodes_eq rev_map del: fill_nodes.simps)
  show ?thesis
    by (simp add: huffman_tree_def bk order nodes
          del: fill_nodes.simps merge_loop.simps order_loop.simps)
qed

text \<open>
  C2. For a non-empty frequency table (a dictionary, so its keys are distinct),
  \<^verbatim>\<open>huffman_tree\<close> returns the tree of the merge policy: the symbols in descending
  frequency, ties in table order, as a queue of Leaf nodes; then the two tail nodes are
  merged (left the first removed, right the second) and the merge goes to the head,
  until one node is left, which is the result.
\<close>

theorem huffman_tree_merge_policy:
  assumes "freq \<noteq> []" and "distinct (map fst freq)"
  shows "\<exists>t. spec_huffman_tree freq = Some t \<and> huffman_tree freq = Inr t"
proof -
  have "length (spec_order freq) = length freq" by (simp add: spec_order_def)
  with assms(1) have "spec_order freq \<noteq> []" by auto
  then have "map (\<lambda>s. Leaf s) (spec_order freq) \<noteq> []" by simp
  from merge_loop_spec_merge [OF this]
  obtain t where t: "spec_merge (map (\<lambda>s. Leaf s) (spec_order freq)) = [t]"
    "merge_loop (map (\<lambda>s. Leaf s) (spec_order freq)) = Inr t" by blast
  have "spec_huffman_tree freq = Some t"
    by (simp add: spec_huffman_tree_def t(1) del: spec_merge.simps)
  moreover have "huffman_tree freq = Inr t"
    using huffman_tree_as_merge [OF assms(2)] t(2) by simp
  ultimately show ?thesis by blast
qed

text \<open>The table \<open>{65: 1, 66: 2, 67: 1}\<close> as an instance.\<close>

theorem huffman_tree_merge_policy_witness:
  "[(65, 1), (66, 2), (67, 1)] \<noteq> ([] :: (int, int) dict)
   \<and> distinct (map fst [(65, 1), (66, 2), (67, 1 :: int)] :: int list)
   \<and> spec_huffman_tree [(65, 1), (66, 2), (67, 1)]
       = Some (Internal (Leaf 66) (Internal (Leaf 67) (Leaf 65)))
   \<and> huffman_tree [(65, 1), (66, 2), (67, 1)]
       = Inr (Internal (Leaf 66) (Internal (Leaf 67) (Leaf 65)))"
proof -
  have h1: "[(65, 1), (66, 2), (67, 1)] \<noteq> ([] :: (int, int) dict)" by simp
  have h2: "distinct (map fst [(65, 1), (66, 2), (67, 1 :: int)] :: int list)" by simp
  have v: "huffman_tree [(65, 1), (66, 2), (67, 1)]
             = Inr (Internal (Leaf 66) (Internal (Leaf 67) (Leaf 65)))"
    by code_simp
  from huffman_tree_merge_policy [OF h1 h2] v h1 h2 show ?thesis by auto
qed


subsection \<open>Trees built over two or more symbols\<close>

text \<open>
  The merge loop keeps every queued node a tree whose nodes have no child or two, and
  keeps the leaf symbols of the queue pairwise distinct; the node that is left holds
  all of them and, when there was anything to merge, is an Internal node.
\<close>

lemma merge_loop_single: "merge_loop [t] = Inr t"
  by (subst merge_loop.simps) simp

lemma merge_loop_step:
  "merge_loop (rest @ [b, a]) = merge_loop (HuffmanNode None (Some a) (Some b) None # rest)"
  by (subst merge_loop.simps) (simp add: butlast_append del: merge_loop.simps)

lemma keys_internal:
  "map fst (spec_paths (HuffmanNode None (Some a) (Some b) None))
     = map fst (spec_paths a) @ map fst (spec_paths b)"
  by (simp add: fst_comp_prefixed)

lemma distinct_rotate3: "distinct (r @ b @ a) \<Longrightarrow> distinct ((a @ b) @ r)"
  by auto

lemma union_rotate3:
  "F p = F a \<union> F b \<Longrightarrow> (\<Union>u \<in> set (p # rest). F u) = (\<Union>u \<in> set (rest @ [b, a]). F u)"
  by auto

lemma two_at_end:
  assumes "2 \<le> length q"
  shows "\<exists>rest b a. q = rest @ [b, a]"
proof -
  from assms have "q \<noteq> []" by auto
  then obtain q1 a where q: "q = q1 @ [a]" by (metis rev_exhaust)
  with assms have "q1 \<noteq> []" by auto
  then obtain rest b where "q1 = rest @ [b]" by (metis rev_exhaust)
  with q show ?thesis by simp
qed

lemma merge_loop_tree:
  assumes "q \<noteq> []"
    and "\<forall>u \<in> set q. full_tree u"
    and "distinct (concat (map (\<lambda>u. map fst (spec_paths u)) q))"
    and "merge_loop q = Inr t"
  shows "full_tree t \<and> distinct (map fst (spec_paths t))
         \<and> set (map fst (spec_paths t)) = (\<Union>u \<in> set q. set (map fst (spec_paths u)))
         \<and> (2 \<le> length q \<longrightarrow> \<not> is_leaf t)"
  using assms
proof (induction q arbitrary: t rule: length_induct)
  case (1 q)
  show ?case
  proof (cases "2 \<le> length q")
    case False
    with 1(2) obtain u where q: "q = [u]"
      by (cases q) (auto simp: Suc_le_eq)
    with 1(5) have "t = u" by (simp add: merge_loop_single del: merge_loop.simps)
    with 1(3,4) q False show ?thesis by simp
  next
    case True
    from two_at_end [OF True] obtain rest b a where q: "q = rest @ [b, a]" by blast
    let ?p = "HuffmanNode None (Some a) (Some b) None"
    let ?q' = "?p # rest"
    have shorter: "length ?q' < length q" by (simp add: q)
    have ne: "?q' \<noteq> []" by simp
    have full: "\<forall>u \<in> set ?q'. full_tree u" using 1(3) by (simp add: q)
    have before: "concat (map (\<lambda>u. map fst (spec_paths u)) q)
        = concat (map (\<lambda>u. map fst (spec_paths u)) rest)
          @ map fst (spec_paths b) @ map fst (spec_paths a)"
      by (simp add: q)
    have after: "concat (map (\<lambda>u. map fst (spec_paths u)) ?q')
        = (map fst (spec_paths a) @ map fst (spec_paths b))
          @ concat (map (\<lambda>u. map fst (spec_paths u)) rest)"
      by (simp add: fst_comp_prefixed)
    have dist: "distinct (concat (map (\<lambda>u. map fst (spec_paths u)) ?q'))"
      using 1(4) unfolding before after by (rule distinct_rotate3)
    have run: "merge_loop ?q' = Inr t" using 1(5) unfolding q merge_loop_step .
    from 1(1) shorter ne full dist run
    have ih: "full_tree t \<and> distinct (map fst (spec_paths t))
         \<and> set (map fst (spec_paths t)) = (\<Union>u \<in> set ?q'. set (map fst (spec_paths u)))
         \<and> (2 \<le> length ?q' \<longrightarrow> \<not> is_leaf t)"
      by blast
    have "set (map fst (spec_paths ?p))
            = set (map fst (spec_paths a)) \<union> set (map fst (spec_paths b))"
      unfolding keys_internal by (rule set_append)
    then have keys: "(\<Union>u \<in> set ?q'. set (map fst (spec_paths u)))
                  = (\<Union>u \<in> set q. set (map fst (spec_paths u)))"
      unfolding q by (rule union_rotate3)
    have "\<not> is_leaf t"
    proof (cases "rest = []")
      case True
      with run have "t = ?p" by (simp add: merge_loop_single del: merge_loop.simps)
      then show ?thesis by (simp add: is_leaf_def)
    next
      case False
      then have "2 \<le> length ?q'" by (cases rest) auto
      with ih show ?thesis by blast
    qed
    with ih keys show ?thesis by simp
  qed
qed


text \<open>
  So a table of two or more distinct symbols gives a tree with an Internal root, two
  children at every inner node, and each symbol of the table on exactly one leaf.
\<close>

lemma leaf_keys: "concat (map (\<lambda>u. map fst (spec_paths u)) (map (\<lambda>s. Leaf s) ks)) = map Some ks"
  by (induction ks) simp_all

lemma huffman_tree_shape:
  assumes "2 \<le> length freq" and "distinct (map fst freq)"
  shows "\<exists>t. huffman_tree freq = Inr t \<and> full_tree t \<and> \<not> is_leaf t
           \<and> distinct (map fst (spec_paths t))
           \<and> set (map fst (spec_paths t)) = Some ` fst ` set freq"
proof -
  let ?q = "map (\<lambda>s. Leaf s) (spec_order freq)"
  have len: "length ?q = length freq" by (simp add: spec_order_def)
  with assms(1) have ne: "?q \<noteq> []" by auto
  from merge_loop_spec_merge [OF ne] obtain t where run: "merge_loop ?q = Inr t" by blast
  have full: "\<forall>u \<in> set ?q. full_tree u" by auto
  have "distinct (spec_order freq)" using assms(2) by (simp add: spec_order_def)
  then have dist: "distinct (concat (map (\<lambda>u. map fst (spec_paths u)) ?q))"
    unfolding leaf_keys by (simp add: distinct_map)
  have keys: "(\<Union>u \<in> set ?q. set (map fst (spec_paths u))) = Some ` fst ` set freq"
    by (auto simp: spec_order_def)
  from merge_loop_tree [OF ne full dist run] assms(1) len keys
  have "full_tree t \<and> \<not> is_leaf t \<and> distinct (map fst (spec_paths t))
          \<and> set (map fst (spec_paths t)) = Some ` fst ` set freq"
    by simp
  moreover have "huffman_tree freq = Inr t"
    using huffman_tree_as_merge [OF assms(2)] run by simp
  ultimately show ?thesis by blast
qed

end
